theory Spec2Isabelle
  imports Complex_Main
begin

section \<open>Python values and errors\<close>

text \<open>
  The exceptions that \<^verbatim>\<open>baseline/utilities/utils.py\<close> can raise. A
  \<^verbatim>\<open>NotImplementedError\<close> carries the name of the type its message is formatted
  with (the empty string where the message names no type).
\<close>

datatype error =
    AssertionError
  | ValueError
  | TypeError
  | IndexError
  | OverflowError
  | ZeroDivisionError
  | NotImplementedError string

text \<open>
  A Python number as the callbacks and the encoder read it: a finite value (an
  \<^verbatim>\<open>int\<close> or a \<^verbatim>\<open>float\<close>, rounding left aside), the two infinities and NaN.
  The code only compares such numbers and converts them with \<^verbatim>\<open>int()\<close>.
\<close>

datatype pynum = Fin real | PInf | NInf | FNaN

text \<open>\<^verbatim>\<open>a < b\<close>: every comparison with NaN is false.\<close>

fun py_lt :: "pynum \<Rightarrow> pynum \<Rightarrow> bool" where
  "py_lt FNaN b = False"
| "py_lt a FNaN = False"
| "py_lt PInf b = False"
| "py_lt a NInf = False"
| "py_lt NInf b = True"
| "py_lt a PInf = True"
| "py_lt (Fin x) (Fin y) = (x < y)"

text \<open>\<^verbatim>\<open>int(x)\<close>: truncation towards zero; NaN and the infinities raise.\<close>

fun py_int :: "pynum \<Rightarrow> error + int" where
  "py_int (Fin x) = Inr (if 0 \<le> x then \<lfloor>x\<rfloor> else \<lceil>x\<rceil>)"
| "py_int PInf = Inl OverflowError"
| "py_int NInf = Inl OverflowError"
| "py_int FNaN = Inl ValueError"

section \<open>Training callbacks\<close>

subsection \<open>SaveBest\<close>

record SaveBest =
  comp :: string
  best_val :: pynum
  best_epoch :: int
  current_epoch :: int

text \<open>\<^verbatim>\<open>SaveBest.__init__(val_comp)\<close>\<close>

definition SaveBest_init :: "string \<Rightarrow> error + SaveBest" where
  "SaveBest_init val_comp =
     (if val_comp = ''inf'' then
        Inr \<lparr>comp = val_comp, best_val = PInf, best_epoch = 0, current_epoch = 0\<rparr>
      else if val_comp = ''sup'' then
        Inr \<lparr>comp = val_comp, best_val = Fin 0, best_epoch = 0, current_epoch = 0\<rparr>
      else Inl (NotImplementedError []))"

text \<open>
  \<^verbatim>\<open>SaveBest.apply(value)\<close>: the decision returned and the object after the call.
\<close>

definition SaveBest_apply :: "SaveBest \<Rightarrow> pynum \<Rightarrow> bool \<times> SaveBest" where
  "SaveBest_apply s v =
     (let decision = (current_epoch s = 0);
          better = ((comp s = ''inf'' \<and> py_lt v (best_val s)) \<or>
                    (comp s = ''sup'' \<and> py_lt (best_val s) v));
          s1 = (if better then s\<lparr>best_epoch := current_epoch s, best_val := v\<rparr> else s);
          decision1 = (if better then True else decision)
      in (decision1, s1\<lparr>current_epoch := current_epoch s1 + 1\<rparr>))"

text \<open>Calling \<^verbatim>\<open>apply\<close> on each value of a list in turn, collecting the decisions.\<close>

fun SaveBest_run :: "SaveBest \<Rightarrow> pynum list \<Rightarrow> bool list \<times> SaveBest" where
  "SaveBest_run s [] = ([], s)"
| "SaveBest_run s (v # vs) =
     (let (d, s1) = SaveBest_apply s v; (ds, s2) = SaveBest_run s1 vs in (d # ds, s2))"

subsection \<open>EarlyStopping\<close>

record EarlyStopping =
  patience :: int
  first_early_wait :: int
  val_comp :: string
  best_val :: pynum
  current_epoch :: int
  best_epoch :: int

text \<open>\<^verbatim>\<open>EarlyStopping.__init__(patience, val_comp, init_patience)\<close>\<close>

definition EarlyStopping_init :: "int \<Rightarrow> string \<Rightarrow> int \<Rightarrow> error + EarlyStopping" where
  "EarlyStopping_init p vc init_patience =
     (if vc = ''inf'' then
        Inr \<lparr>patience = p, first_early_wait = init_patience, val_comp = vc,
             best_val = PInf, current_epoch = 0, best_epoch = 0\<rparr>
      else if vc = ''sup'' then
        Inr \<lparr>patience = p, first_early_wait = init_patience, val_comp = vc,
             best_val = Fin 0, current_epoch = 0, best_epoch = 0\<rparr>
      else Inl (NotImplementedError []))"

text \<open>
  The flag \<^verbatim>\<open>current\<close> of \<^verbatim>\<open>EarlyStopping.apply\<close>: the value improves on
  the best one under the comparison mode.
\<close>

definition improves :: "EarlyStopping \<Rightarrow> pynum \<Rightarrow> bool" where
  "improves s v =
     (let c1 = (if val_comp s = ''inf'' then (if py_lt v (best_val s) then True else False)
                else False)
      in if val_comp s = ''sup'' then (if py_lt (best_val s) v then True else c1) else c1)"

text \<open>\<^verbatim>\<open>EarlyStopping.apply(value)\<close>\<close>

definition EarlyStopping_apply :: "EarlyStopping \<Rightarrow> pynum \<Rightarrow> bool \<times> EarlyStopping" where
  "EarlyStopping_apply s v =
     (if improves s v then
        (let s1 = s\<lparr>best_val := v, best_epoch := current_epoch s\<rparr>
         in (False, s1\<lparr>current_epoch := current_epoch s1 + 1\<rparr>))
      else if current_epoch s - best_epoch s > patience s
              \<and> current_epoch s > first_early_wait s then
        (True, s\<lparr>current_epoch := 0\<rparr>)
      else (False, s\<lparr>current_epoch := current_epoch s + 1\<rparr>))"

fun EarlyStopping_run :: "EarlyStopping \<Rightarrow> pynum list \<Rightarrow> bool list \<times> EarlyStopping" where
  "EarlyStopping_run s [] = ([], s)"
| "EarlyStopping_run s (v # vs) =
     (let (d, s1) = EarlyStopping_apply s v; (ds, s2) = EarlyStopping_run s1 vs
      in (d # ds, s2))"

section \<open>Running statistics\<close>

subsection \<open>AverageMeter\<close>

text \<open>
  The values fed to a meter are finite numbers and are modelled as reals; the weight
  \<^verbatim>\<open>n\<close> and the count are integers. \<^verbatim>\<open>sum\<close> and \<^verbatim>\<open>count\<close> are the fields
  \<open>sum'\<close> and \<open>count'\<close>.
\<close>

record AverageMeter =
  val :: real
  avg :: real
  sum' :: real
  count' :: int

definition AverageMeter_reset :: "AverageMeter" where
  "AverageMeter_reset = \<lparr>val = 0, avg = 0, sum' = 0, count' = 0\<rparr>"

text \<open>
  \<^verbatim>\<open>AverageMeter.update(val, n)\<close>. The division is the last statement: when it
  raises, the three fields before it have been assigned already, so the error comes
  with the object as the exception leaves it.
\<close>

definition AverageMeter_update ::
  "AverageMeter \<Rightarrow> real \<Rightarrow> int \<Rightarrow> (error \<times> AverageMeter) + AverageMeter" where
  "AverageMeter_update m v n =
     (let m1 = m\<lparr>val := v\<rparr>;
          m2 = m1\<lparr>sum' := sum' m1 + v * of_int n\<rparr>;
          m3 = m2\<lparr>count' := count' m2 + n\<rparr>
      in if count' m3 = 0 then Inl (ZeroDivisionError, m3)
         else Inr (m3\<lparr>avg := sum' m3 / of_int (count' m3)\<rparr>))"

subsection \<open>AverageMeterSet\<close>

type_synonym AverageMeterSet = "string \<rightharpoonup> AverageMeter"

definition AverageMeterSet_init :: "AverageMeterSet" where
  "AverageMeterSet_init = Map.empty"

text \<open>
  \<^verbatim>\<open>AverageMeterSet.update(name, value, n)\<close>: the meter updated is the one
  stored under the name, or a new one (as \<^verbatim>\<open>AverageMeter()\<close> leaves it) when the
  name is not in the dictionary; the dictionary holds it afterwards, also when the
  update raises.
\<close>

definition AverageMeterSet_update ::
  "AverageMeterSet \<Rightarrow> string \<Rightarrow> real \<Rightarrow> int \<Rightarrow> (error \<times> AverageMeterSet) + AverageMeterSet" where
  "AverageMeterSet_update ms name v n =
     (let m = (case ms name of None \<Rightarrow> AverageMeter_reset | Some m0 \<Rightarrow> m0)
      in case AverageMeter_update m v n of
           Inl (e, m') \<Rightarrow> Inl (e, ms(name \<mapsto> m'))
         | Inr m' \<Rightarrow> Inr (ms(name \<mapsto> m')))"

section \<open>ManyHotEncoder\<close>

subsection \<open>Data\<close>

text \<open>
  The encoder holds the vocabulary and the number of frames (\<^verbatim>\<open>None\<close> by default).
\<close>

record ManyHotEncoder =
  labels :: "string list"
  n_frames :: "int option"

text \<open>
  A cell that is read as an event label: a string, or NaN (what \<^verbatim>\<open>pd.isna\<close>
  tests for).
\<close>

datatype label = Label string | NaN

text \<open>
  A table as the encoder reads it: the names of its columns and, for each row, the
  cells under \<^verbatim>\<open>event_label\<close>, \<^verbatim>\<open>onset\<close> and \<^verbatim>\<open>offset\<close> (read only
  when the table has those columns).
\<close>

record event_row =
  event_label :: label
  onset :: pynum
  offset :: pynum

record DataFrame =
  columns :: "string list"
  rows :: "event_row list"

text \<open>
  An item of a list, an array or a series:
  \<^item> \<open>EStr s\<close>, a \<^verbatim>\<open>str\<close>;
  \<^item> \<open>ESeq t l xs\<close>, an object of type \<open>t\<close> (not \<^verbatim>\<open>str\<close>) that holds a
    label cell followed by the numbers \<open>xs\<close>, so that its \<^verbatim>\<open>len\<close> is
    \<open>1 + length xs\<close>: \<^verbatim>\<open>[label, onset, offset]\<close> is \<open>ESeq ''list'' l [on, off]\<close>;
  \<^item> \<open>ENil t\<close>, an empty object of type \<open>t\<close> that has a \<^verbatim>\<open>len\<close>;
  \<^item> \<open>EUnsized t\<close>, an object of type \<open>t\<close> without \<^verbatim>\<open>len\<close>, such as a number.
\<close>

datatype elem =
    EStr string
  | ESeq string label "pynum list"
  | ENil string
  | EUnsized string

text \<open>
  A series: the names in its index, the cells under \<^verbatim>\<open>event_label\<close>,
  \<^verbatim>\<open>onset\<close> and \<^verbatim>\<open>offset\<close> (read only when the index has those names), and
  the items that iterating over it yields.
\<close>

record Series =
  index :: "string list"
  entry :: event_row
  items :: "elem list"

text \<open>
  What \<^verbatim>\<open>encode_strong_df\<close> can be given, by the type it dispatches on;
  \<open>SOther t\<close> is an object of any other type, \<open>t\<close> being the name of that type.
\<close>

datatype label_source =
    SStr string
  | SDataFrame DataFrame
  | SSeries Series
  | SList "elem list"
  | SNdarray "elem list"
  | SOther string


text \<open>
  A two-dimensional array: its shape (rows, columns) and its rows. The entry of frame
  \<open>f\<close> and label column \<open>j\<close> is \<open>cells y ! f ! j\<close>.
\<close>

record matrix =
  shape :: "nat \<times> nat"
  cells :: "real list list"

subsection \<open>Library operations the encoder calls\<close>

text \<open>\<^verbatim>\<open>xs.index(x)\<close>: the first position of \<open>x\<close>, ValueError when there is none.\<close>

fun list_index :: "'a list \<Rightarrow> 'a \<Rightarrow> error + nat" where
  "list_index [] x = Inl ValueError"
| "list_index (y # ys) x =
     (if y = x then Inr 0
      else (case list_index ys x of Inl e \<Rightarrow> Inl e | Inr i \<Rightarrow> Inr (Suc i)))"

text \<open>\<^verbatim>\<open>np.zeros(k)\<close> and \<^verbatim>\<open>np.zeros((n, k))\<close>; a negative dimension raises.\<close>

definition zeros :: "nat \<Rightarrow> real list" where
  "zeros k = replicate k 0"

definition zeros2 :: "int \<Rightarrow> nat \<Rightarrow> error + matrix" where
  "zeros2 n k =
     (if n < 0 then Inl ValueError
      else Inr \<lparr>shape = (nat n, k), cells = replicate (nat n) (zeros k)\<rparr>)"

text \<open>\<^verbatim>\<open>y - 1\<close> on an array.\<close>

definition minus_one :: "matrix \<Rightarrow> matrix" where
  "minus_one y = y\<lparr>cells := map (map (\<lambda>x. x - 1)) (cells y)\<rparr>"

text \<open>
  Where a slice bound \<open>i\<close> falls on an axis of length \<open>n\<close>: a negative bound counts
  from the end, and both are clipped to the axis.
\<close>

definition slice_bound :: "nat \<Rightarrow> int \<Rightarrow> nat" where
  "slice_bound n i = (if i < 0 then nat (max (i + int n) 0) else min (nat i) n)"

text \<open>\<^verbatim>\<open>y[onset:offset, i] = 1\<close>\<close>

definition set_slice :: "matrix \<Rightarrow> int \<Rightarrow> int \<Rightarrow> nat \<Rightarrow> matrix" where
  "set_slice y on off i =
     y\<lparr>cells :=
         map (\<lambda>(f, row).
                if slice_bound (fst (shape y)) on \<le> f \<and> f < slice_bound (fst (shape y)) off
                then row[i := 1] else row)
             (enumerate 0 (cells y))\<rparr>"

text \<open>\<^verbatim>\<open>y[:, i] = 1\<close>\<close>

definition set_column :: "matrix \<Rightarrow> nat \<Rightarrow> matrix" where
  "set_column y i = y\<lparr>cells := map (\<lambda>row. row[i := 1]) (cells y)\<rparr>"

text \<open>Column \<open>j\<close> of an array: row \<open>j\<close> of \<^verbatim>\<open>y.T\<close>.\<close>

definition column :: "matrix \<Rightarrow> nat \<Rightarrow> real list" where
  "column y j = map (\<lambda>row. row ! j) (cells y)"

subsection \<open>encode\_weak\<close>




subsection \<open>encode\_strong\_df\<close>

text \<open>
  The body run for one row of a table, and for a series that is one row: a row whose
  label is NaN is passed over, otherwise its frames are set in the column of its label.
\<close>

definition encode_row :: "string list \<Rightarrow> matrix \<Rightarrow> event_row \<Rightarrow> error + matrix" where
  "encode_row voc y r =
     (if event_label r \<noteq> NaN then
        (case list_index (map Label voc) (event_label r) of
           Inl e \<Rightarrow> Inl e
         | Inr i \<Rightarrow>
             (case py_int (onset r) of
                Inl e \<Rightarrow> Inl e
              | Inr on \<Rightarrow>
                  (case py_int (offset r) of
                     Inl e \<Rightarrow> Inl e
                   | Inr off \<Rightarrow> Inr (set_slice y on off i))))
      else Inr y)"

fun encode_rows :: "string list \<Rightarrow> matrix \<Rightarrow> event_row list \<Rightarrow> error + matrix" where
  "encode_rows voc y [] = Inr y"
| "encode_rows voc y (r # rs) =
     (case encode_row voc y r of Inl e \<Rightarrow> Inl e | Inr y1 \<Rightarrow> encode_rows voc y1 rs)"

text \<open>
  The body of the loop over the items of a list, an array or a series. The tests
  \<^verbatim>\<open>is not ""\<close> are read as inequality with the empty string (the interpreter keeps
  one empty string object). An object without \<^verbatim>\<open>len\<close> makes \<^verbatim>\<open>len\<close> raise
  TypeError.
\<close>

fun encode_elem :: "string list \<Rightarrow> matrix \<Rightarrow> elem \<Rightarrow> error + matrix" where
  "encode_elem voc y (EStr s) =
     (if s \<noteq> [] then
        (case list_index voc s of Inl e \<Rightarrow> Inl e | Inr i \<Rightarrow> Inr (set_column y i))
      else Inr y)"
| "encode_elem voc y (ESeq t l xs) =
     (if 1 + length xs = 3 then
        (if l \<noteq> Label [] then
           (case list_index (map Label voc) l of
              Inl e \<Rightarrow> Inl e
            | Inr i \<Rightarrow>
                (case py_int (xs ! 0) of
                   Inl e \<Rightarrow> Inl e
                 | Inr on \<Rightarrow>
                     (case py_int (xs ! 1) of
                        Inl e \<Rightarrow> Inl e
                      | Inr off \<Rightarrow> Inr (set_slice y on off i))))
         else Inr y)
      else Inl (NotImplementedError t))"
| "encode_elem voc y (ENil t) = Inl (NotImplementedError t)"
| "encode_elem voc y (EUnsized t) = Inl TypeError"

fun encode_elems :: "string list \<Rightarrow> matrix \<Rightarrow> elem list \<Rightarrow> error + matrix" where
  "encode_elems voc y [] = Inr y"
| "encode_elems voc y (x # xs) =
     (case encode_elem voc y x of Inl e \<Rightarrow> Inl e | Inr y1 \<Rightarrow> encode_elems voc y1 xs)"

definition strong_columns :: "string set" where
  "strong_columns = {''onset'', ''offset'', ''event_label''}"

definition encode_strong_df :: "ManyHotEncoder \<Rightarrow> label_source \<Rightarrow> error + matrix" where
  "encode_strong_df enc label_df =
     (case n_frames enc of
        None \<Rightarrow> Inl AssertionError
      | Some n \<Rightarrow>
          (case zeros2 n (length (labels enc)) of
             Inl e \<Rightarrow> Inl e
           | Inr y \<Rightarrow>
               (if label_df = SStr ''empty'' then Inr (minus_one y)
                else
                  (case label_df of
                     SDataFrame df \<Rightarrow>
                       (if strong_columns \<subseteq> set (columns df)
                        then encode_rows (labels enc) y (rows df) else Inr y)
                   | SSeries sr \<Rightarrow>
                       (if strong_columns \<subseteq> set (index sr)
                        then encode_row (labels enc) y (entry sr)
                        else encode_elems (labels enc) y (items sr))
                   | SList es \<Rightarrow> encode_elems (labels enc) y es
                   | SNdarray es \<Rightarrow> encode_elems (labels enc) y es
                   | SStr s \<Rightarrow> Inl (NotImplementedError ''str'')
                   | SOther t \<Rightarrow> Inl (NotImplementedError t)))))"

subsection \<open>decode\_weak\<close>

fun decode_weak_loop :: "string list \<Rightarrow> (nat \<times> real) list \<Rightarrow> error + string list" where
  "decode_weak_loop voc [] = Inr []"
| "decode_weak_loop voc ((i, v) # ps) =
     (if v = 1 then
        (if i < length voc then
           (case decode_weak_loop voc ps of
              Inl e \<Rightarrow> Inl e
            | Inr result_labels \<Rightarrow> Inr (voc ! i # result_labels))
         else Inl IndexError)
      else decode_weak_loop voc ps)"

definition decode_weak :: "ManyHotEncoder \<Rightarrow> real list \<Rightarrow> error + string list" where
  "decode_weak enc v = decode_weak_loop (labels enc) (enumerate 0 v)"

subsection \<open>decode\_strong\<close>

text \<open>
  Modelled from the spec: \<^verbatim>\<open>DecisionEncoder.find_contiguous_regions\<close> belongs to the
  package \<^verbatim>\<open>dcase_util\<close>, which the sources do not include. The description of
  \<^verbatim>\<open>decode_strong\<close> has it find, in one label column, the maximal contiguous runs of
  active frames (value 1), a run ending where the value changes, and give the pair
  (run start, run end) of each run, in run order, the end being exclusive.
\<close>

definition is_run :: "real list \<Rightarrow> nat \<Rightarrow> nat \<Rightarrow> bool" where
  "is_run c s e =
     (s < e \<and> e \<le> length c \<and> list_all (\<lambda>f. c ! f = 1) [s..<e]
      \<and> (if s = 0 then True else c ! (s - 1) \<noteq> 1)
      \<and> (if e = length c then True else c ! e \<noteq> 1))"

text \<open>
  Modelled from the spec: the regions of a column are its runs, listed by their start.
\<close>

definition find_contiguous_regions :: "real list \<Rightarrow> (nat \<times> nat) list" where
  "find_contiguous_regions c =
     concat (map (\<lambda>s. map (\<lambda>e. (s, e)) (filter (is_run c s) [Suc s..<Suc (length c)]))
                 [0..<length c])"

text \<open>
  The loop of \<^verbatim>\<open>decode_strong\<close> over the columns; \<^verbatim>\<open>self.labels[i]\<close> is read
  once for each region of column \<open>i\<close>, and raises when the vocabulary is too short.
\<close>

type_synonym event = "string \<times> nat \<times> nat"

fun decode_columns :: "string list \<Rightarrow> matrix \<Rightarrow> nat list \<Rightarrow> error + event list" where
  "decode_columns voc y [] = Inr []"
| "decode_columns voc y (i # is) =
     (let change_indices = find_contiguous_regions (column y i)
      in if change_indices \<noteq> [] \<and> \<not> i < length voc then Inl IndexError
         else (case decode_columns voc y is of
                 Inl e \<Rightarrow> Inl e
               | Inr result_labels \<Rightarrow>
                   Inr (map (\<lambda>(s, e). (voc ! i, s, e)) change_indices @ result_labels)))"

definition decode_strong :: "ManyHotEncoder \<Rightarrow> matrix \<Rightarrow> error + event list" where
  "decode_strong enc y = decode_columns (labels enc) y [0..<snd (shape y)]"

section \<open>Conditions used in the statements\<close>

text \<open>
  An array of \<open>n\<close> rows and \<open>k\<close> columns whose entries are all 0 or 1.
\<close>

definition binary_matrix :: "nat \<Rightarrow> nat \<Rightarrow> matrix \<Rightarrow> bool" where
  "binary_matrix n k y =
     (shape y = (n, k) \<and> length (cells y) = n
      \<and> list_all (\<lambda>row. length row = k \<and> list_all (\<lambda>x. x = 0 \<or> x = 1) row) (cells y))"

text \<open>
  Inputs that \<^verbatim>\<open>encode_strong_df\<close> encodes: the number of frames is set (and not
  negative), every event has a label of the vocabulary (a row may have none, an item may
  have the empty string) and finite onset and offset. A table without the three columns
  is encoded as no event at all.
\<close>

definition is_fin :: "pynum \<Rightarrow> bool" where
  "is_fin x = (case x of Fin r \<Rightarrow> True | PInf \<Rightarrow> False | NInf \<Rightarrow> False | FNaN \<Rightarrow> False)"

definition accepted_row :: "string list \<Rightarrow> event_row \<Rightarrow> bool" where
  "accepted_row voc r =
     (if event_label r = NaN then True
      else event_label r \<in> set (map Label voc) \<and> is_fin (onset r) \<and> is_fin (offset r))"

fun accepted_elem :: "string list \<Rightarrow> elem \<Rightarrow> bool" where
  "accepted_elem voc (EStr s) = (if s = [] then True else s \<in> set voc)"
| "accepted_elem voc (ESeq t l xs) =
     (length xs = 2 \<and>
      (if l = Label [] then True else l \<in> set (map Label voc) \<and> list_all is_fin xs))"
| "accepted_elem voc (ENil t) = False"
| "accepted_elem voc (EUnsized t) = False"

definition accepted :: "ManyHotEncoder \<Rightarrow> label_source \<Rightarrow> bool" where
  "accepted enc src =
     ((case n_frames enc of None \<Rightarrow> False | Some n \<Rightarrow> 0 \<le> n) \<and>
      (case src of
         SStr s \<Rightarrow> False
       | SDataFrame df \<Rightarrow>
           (if strong_columns \<subseteq> set (columns df)
            then list_all (accepted_row (labels enc)) (rows df) else True)
       | SSeries sr \<Rightarrow>
           (if strong_columns \<subseteq> set (index sr) then accepted_row (labels enc) (entry sr)
            else list_all (accepted_elem (labels enc)) (items sr))
       | SList es \<Rightarrow> list_all (accepted_elem (labels enc)) es
       | SNdarray es \<Rightarrow> list_all (accepted_elem (labels enc)) es
       | SOther t \<Rightarrow> False))"

text \<open>
  An event tuple as \<^verbatim>\<open>decode_strong\<close> returns it, given back to
  \<^verbatim>\<open>encode_strong_df\<close> as an item \<^verbatim>\<open>[label, onset, offset]\<close> of a list.
\<close>

definition event_elem :: "event \<Rightarrow> elem" where
  "event_elem ev =
     (case ev of (l, s, e) \<Rightarrow> ESeq ''list'' (Label l) [Fin (real s), Fin (real e)])"

text \<open>
  Two runs are apart when at least one frame lies between them: they neither overlap
  nor touch. A list of events is separated when any two of its events with the same
  label are apart.
\<close>

definition apart :: "event \<Rightarrow> event \<Rightarrow> bool" where
  "apart a b = (snd (snd a) < fst (snd b) \<or> snd (snd b) < fst (snd a))"

fun separated :: "event list \<Rightarrow> bool" where
  "separated [] = True"
| "separated (a # es) = (list_all (\<lambda>b. if fst b = fst a then apart a b else True) es
                         \<and> separated es)"

text \<open>
  Decoding an array, encoding the events found and decoding the result.
\<close>

definition decode_encode_decode :: "ManyHotEncoder \<Rightarrow> matrix \<Rightarrow> error + event list" where
  "decode_encode_decode enc y =
     (case decode_strong enc y of
        Inl e \<Rightarrow> Inl e
      | Inr evs \<Rightarrow>
          (case encode_strong_df enc (SList (map event_elem evs)) of
             Inl e \<Rightarrow> Inl e
           | Inr y1 \<Rightarrow> decode_strong enc y1))"







text \<open>
  The items that the loop of \<^verbatim>\<open>encode_strong_df\<close> runs over, for a list, an array
  and a series that is not one row.
\<close>

definition items_of :: "label_source \<Rightarrow> elem list option" where
  "items_of src =
     (case src of
        SStr s \<Rightarrow> None
      | SDataFrame df \<Rightarrow> None
      | SSeries sr \<Rightarrow> (if strong_columns \<subseteq> set (index sr) then None else Some (items sr))
      | SList es \<Rightarrow> Some es
      | SNdarray es \<Rightarrow> Some es
      | SOther t \<Rightarrow> None)"

text \<open>
  An item of no supported shape: neither a string nor an object of length 3.
  \<open>unsupported_type\<close> gives the type of such an item when it has a length.
\<close>

fun unsupported :: "elem \<Rightarrow> bool" where
  "unsupported (EStr s) = False"
| "unsupported (ESeq t l xs) = (length xs \<noteq> 2)"
| "unsupported (ENil t) = True"
| "unsupported (EUnsized t) = True"

fun unsupported_type :: "elem \<Rightarrow> string option" where
  "unsupported_type (EStr s) = None"
| "unsupported_type (ESeq t l xs) = (if length xs \<noteq> 2 then Some t else None)"
| "unsupported_type (ENil t) = Some t"
| "unsupported_type (EUnsized t) = None"

section \<open>Properties of the callbacks and meters\<close>

text \<open>
  C6. A \<^verbatim>\<open>SaveBest("inf")\<close> fed the values 5, 3, 4, 3 answers True, True, False,
  False and ends with best value 3 and best epoch 1; every call of \<^verbatim>\<open>apply\<close>
  adds exactly one to the epoch counter.
\<close>

theorem SaveBest_sequence:
  "SaveBest_init ''inf'' = Inr \<lparr>comp = ''inf'', best_val = PInf, best_epoch = 0, current_epoch = 0\<rparr>
   \<and> SaveBest_run \<lparr>comp = ''inf'', best_val = PInf, best_epoch = 0, current_epoch = 0\<rparr>
         [Fin 5, Fin 3, Fin 4, Fin 3]
       = ([True, True, False, False],
          \<lparr>comp = ''inf'', best_val = Fin 3, best_epoch = 1, current_epoch = 4\<rparr>)
   \<and> SaveBest.current_epoch (snd (SaveBest_apply s v)) = SaveBest.current_epoch s + 1"
  by (simp add: SaveBest_init_def SaveBest_apply_def Let_def)

text \<open>
  C1, as stated: with patience 2, mode "inf" and no warm-up, the values 5, 4, 5, 5, 5
  would make the fourth call (index 3) return True. It returns False: the best epoch is
  1, and at the fourth call the counter is 3, so only 2 epochs have passed, which does
  not exceed the patience.
\<close>

theorem EarlyStopping_stops_at_index_3_counterexample:
  "EarlyStopping_init 2 ''inf'' 0
     = Inr \<lparr>patience = 2, first_early_wait = 0, val_comp = ''inf'',
            best_val = PInf, current_epoch = 0, best_epoch = 0\<rparr>
   \<and> \<not> (fst (EarlyStopping_run
            \<lparr>patience = 2, first_early_wait = 0, val_comp = ''inf'',
             best_val = PInf, current_epoch = 0, best_epoch = 0\<rparr>
            [Fin 5, Fin 4, Fin 5, Fin 5, Fin 5]) ! 3)"
  by (simp add: EarlyStopping_init_def EarlyStopping_apply_def improves_def Let_def)

text \<open>
  C1, amended: \<^verbatim>\<open>apply\<close> returns True exactly when the value is no improvement,
  the epochs since the best epoch exceed the patience and the epoch counter exceeds the
  warm-up; it then sets the epoch counter to 0, and adds one to it otherwise. On the
  values 5, 4, 5, 5, 5 with patience 2 the first True is the fifth answer (index 4).
\<close>

theorem EarlyStopping_apply_stop:
  "fst (EarlyStopping_apply s v)
     = (\<not> improves s v \<and> current_epoch s - best_epoch s > patience s
        \<and> current_epoch s > first_early_wait s)
   \<and> current_epoch (snd (EarlyStopping_apply s v))
     = (if fst (EarlyStopping_apply s v) then 0 else current_epoch s + 1)
   \<and> EarlyStopping_run
        \<lparr>patience = 2, first_early_wait = 0, val_comp = ''inf'',
         best_val = PInf, current_epoch = 0, best_epoch = 0\<rparr>
        [Fin 5, Fin 4, Fin 5, Fin 5, Fin 5]
      = ([False, False, False, False, True],
         \<lparr>patience = 2, first_early_wait = 0, val_comp = ''inf'',
          best_val = Fin 4, current_epoch = 0, best_epoch = 1\<rparr>)"
  by (simp add: EarlyStopping_apply_def improves_def Let_def)

text \<open>
  C8. After the updates ("loss", 1.0) and ("loss", 3.0) with weight 1 the meter "loss"
  has average 2, count 2 and sum 4. The set starts without a meter of that name; an
  update under a name that has no meter creates one and updates it.
\<close>

theorem AverageMeterSet_loss:
  "AverageMeterSet_init ''loss'' = None
   \<and> AverageMeterSet_update AverageMeterSet_init ''loss'' 1 1
       = Inr [''loss'' \<mapsto> \<lparr>val = 1, avg = 1, sum' = 1, count' = 1\<rparr>]
   \<and> AverageMeterSet_update [''loss'' \<mapsto> \<lparr>val = 1, avg = 1, sum' = 1, count' = 1\<rparr>] ''loss'' 3 1
       = Inr [''loss'' \<mapsto> \<lparr>val = 3, avg = 2, sum' = 4, count' = 2\<rparr>]
   \<and> (ms name = None \<and> n \<noteq> 0 \<longrightarrow>
        AverageMeterSet_update ms name v n
          = Inr (ms(name \<mapsto> \<lparr>val = v, avg = v * of_int n / of_int n, sum' = v * of_int n, count' = n\<rparr>)))"
  by (simp add: AverageMeterSet_init_def AverageMeterSet_update_def AverageMeter_update_def
      AverageMeter_reset_def Let_def)

theorem AverageMeterSet_loss_witness:
  "AverageMeterSet_init ''acc'' = None \<and> (2::int) \<noteq> 0
   \<and> AverageMeterSet_update AverageMeterSet_init ''acc'' 7 2
        = Inr (AverageMeterSet_init(''acc'' \<mapsto> \<lparr>val = 7, avg = 7, sum' = 14, count' = 2\<rparr>))"
  using AverageMeterSet_loss [of AverageMeterSet_init "''acc''" 2 7]
  by (simp add: AverageMeterSet_init_def)

text \<open>
  C10. On a meter just reset, an update of weight 0 raises ZeroDivisionError. Whenever
  the count after adding the weight is positive the update succeeds, and afterwards the
  average is the sum divided by the count.
\<close>

theorem AverageMeter_update_division:
  "AverageMeter_update AverageMeter_reset v 0
     = Inl (ZeroDivisionError, \<lparr>val = v, avg = 0, sum' = 0, count' = 0\<rparr>)
   \<and> (0 < count' m + n \<longrightarrow>
        (\<exists>m'. AverageMeter_update m v n = Inr m'
           \<and> count' m' = count' m + n \<and> sum' m' = sum' m + v * of_int n
           \<and> avg m' = sum' m' / of_int (count' m')))"
  by (simp add: AverageMeter_update_def AverageMeter_reset_def Let_def)

theorem AverageMeter_update_division_witness:
  "(0::int) < count' AverageMeter_reset + 1
   \<and> (\<exists>m'. AverageMeter_update AverageMeter_reset 5 1 = Inr m'
           \<and> count' m' = 1 \<and> sum' m' = 5 \<and> avg m' = 5)"
  using AverageMeter_update_division [of 5 AverageMeter_reset 1]
  by (auto simp: AverageMeter_reset_def)

section \<open>Properties of the encoder\<close>

subsection \<open>decode\_weak\<close>

lemma decode_weak_loop_ok:
  "\<forall>p\<in>set ps. fst p < length voc \<Longrightarrow>
   decode_weak_loop voc ps = Inr (map (\<lambda>p. voc ! fst p) (filter (\<lambda>p. snd p = 1) ps))"
  by (induction voc ps rule: decode_weak_loop.induct) auto

lemma nths_by_nth:
  "nths xs A = map (\<lambda>i. xs ! i) (filter (\<lambda>i. i \<in> A) [0..<length xs])"
proof -
  have z: "zip xs [0..<length xs] = map (\<lambda>i. (xs ! i, i)) [0..<length xs]"
    by (rule nth_equalityI) auto
  show ?thesis
    unfolding nths_def z filter_map map_map by (simp add: o_def)
qed

lemma enumerate_by_nth: "enumerate 0 v = map (\<lambda>i. (i, v ! i)) [0..<length v]"
  by (rule nth_equalityI) (auto simp: nth_enumerate_eq)

text \<open>
  C7. For a vector with one entry for each vocabulary label, \<^verbatim>\<open>decode_weak\<close>
  returns the labels at the positions whose entry equals 1, in vocabulary order, and
  nothing else.
\<close>

theorem decode_weak_subsequence:
  assumes "length v = length (labels enc)"
  shows "decode_weak enc v = Inr (nths (labels enc) {i. v ! i = 1})"
proof -
  have "\<forall>p\<in>set (enumerate 0 v). fst p < length (labels enc)"
    using assms by (auto simp: in_set_enumerate_eq)
  then have "decode_weak enc v
      = Inr (map (\<lambda>p. labels enc ! fst p) (filter (\<lambda>p. snd p = 1) (enumerate 0 v)))"
    unfolding decode_weak_def by (rule decode_weak_loop_ok)
  also have "map (\<lambda>p. labels enc ! fst p) (filter (\<lambda>p. snd p = 1) (enumerate 0 v))
      = nths (labels enc) {i. v ! i = 1}"
    unfolding nths_by_nth enumerate_by_nth filter_map map_map using assms by (simp add: o_def)
  finally show ?thesis .
qed

theorem decode_weak_subsequence_witness:
  "length [1, 0, 1, 1/2 :: real] = length (labels \<lparr>labels = [''a'', ''b'', ''c'', ''d''], n_frames = None\<rparr>)
   \<and> decode_weak \<lparr>labels = [''a'', ''b'', ''c'', ''d''], n_frames = None\<rparr> [1, 0, 1, 1/2]
       = Inr [''a'', ''c'']
   \<and> nths [''a'', ''b'', ''c'', ''d''] {i. [1, 0, 1, 1/2 :: real] ! i = 1} = [''a'', ''c'']"
proof -
  have d: "decode_weak \<lparr>labels = [''a'', ''b'', ''c'', ''d''], n_frames = None\<rparr> [1, 0, 1, 1/2]
       = Inr [''a'', ''c'']"
    by (simp add: decode_weak_def enumerate_eq_zip upt_rec)
  show ?thesis
    using decode_weak_subsequence
      [of "[1, 0, 1, 1/2]" "\<lparr>labels = [''a'', ''b'', ''c'', ''d''], n_frames = None\<rparr>"] d
    by simp
qed

subsection \<open>encode\_weak\<close>


lemma list_index_in:
  "x \<in> set xs \<Longrightarrow> \<exists>i<length xs. list_index xs x = Inr i \<and> xs ! i = x"
  by (induction xs) auto

lemma list_index_Inr: "list_index xs x = Inr i \<Longrightarrow> i < length xs \<and> xs ! i = x"
proof (induction xs arbitrary: i)
  case Nil
  then show ?case by simp
next
  case (Cons y ys)
  show ?case
  proof (cases "y = x")
    case True
    with Cons.prems show ?thesis by simp
  next
    case False
    with Cons.prems obtain j where j: "list_index ys x = Inr j" "i = Suc j"
      by (cases "list_index ys x") auto
    with Cons.IH [of j] show ?thesis by simp
  qed
qed






subsection \<open>Shape of the strong encoding\<close>

lemma set_slice_shape: "shape (set_slice y a b i) = shape y"
  by (simp add: set_slice_def)

lemma set_slice_length: "length (cells (set_slice y a b i)) = length (cells y)"
  by (simp add: set_slice_def)

lemma set_slice_nth:
  "f < length (cells y) \<Longrightarrow>
   cells (set_slice y a b i) ! f =
     (if slice_bound (fst (shape y)) a \<le> f \<and> f < slice_bound (fst (shape y)) b
      then (cells y ! f)[i := 1] else cells y ! f)"
  by (simp add: set_slice_def nth_enumerate_eq)

lemma set_column_shape: "shape (set_column y i) = shape y"
  by (simp add: set_column_def)

lemma set_column_length: "length (cells (set_column y i)) = length (cells y)"
  by (simp add: set_column_def)

lemma set_column_nth:
  "f < length (cells y) \<Longrightarrow> cells (set_column y i) ! f = (cells y ! f)[i := 1]"
  by (simp add: set_column_def)

lemma binary_row_update:
  "list_all (\<lambda>x. x = 0 \<or> x = (1::real)) row \<Longrightarrow> list_all (\<lambda>x. x = 0 \<or> x = 1) (row[i := 1])"
proof -
  assume a: "list_all (\<lambda>x. x = 0 \<or> x = (1::real)) row"
  have "row[i := 1] ! n = 0 \<or> row[i := 1] ! n = 1" if "n < length row" for n
    using a that by (cases "n = i") (simp_all add: list_all_length)
  then show ?thesis by (simp add: list_all_length)
qed

lemma binary_matrix_nth:
  "binary_matrix n k y =
     (shape y = (n, k) \<and> length (cells y) = n
      \<and> (\<forall>f<n. length (cells y ! f) = k \<and> list_all (\<lambda>x. x = 0 \<or> x = 1) (cells y ! f)))"
  unfolding binary_matrix_def list_all_length [of _ "cells y"] by blast

lemma binary_set_slice:
  assumes "binary_matrix n k y"
  shows "binary_matrix n k (set_slice y a b i)"
proof -
  from assms have sh: "shape y = (n, k)" and len: "length (cells y) = n"
    and rows: "\<And>f. f < n \<Longrightarrow> length (cells y ! f) = k \<and> list_all (\<lambda>x. x = 0 \<or> x = 1) (cells y ! f)"
    by (simp_all add: binary_matrix_nth)
  have "length (cells (set_slice y a b i) ! f) = k
        \<and> list_all (\<lambda>x. x = 0 \<or> x = 1) (cells (set_slice y a b i) ! f)" if "f < n" for f
    using that rows [OF that] len by (simp add: set_slice_nth binary_row_update)
  then show ?thesis
    using sh len by (simp add: binary_matrix_nth set_slice_shape set_slice_length)
qed

lemma binary_set_column:
  assumes "binary_matrix n k y"
  shows "binary_matrix n k (set_column y i)"
proof -
  from assms have sh: "shape y = (n, k)" and len: "length (cells y) = n"
    and rows: "\<And>f. f < n \<Longrightarrow> length (cells y ! f) = k \<and> list_all (\<lambda>x. x = 0 \<or> x = 1) (cells y ! f)"
    by (simp_all add: binary_matrix_nth)
  have "length (cells (set_column y i) ! f) = k
        \<and> list_all (\<lambda>x. x = 0 \<or> x = 1) (cells (set_column y i) ! f)" if "f < n" for f
    using that rows [OF that] len by (simp add: set_column_nth binary_row_update)
  then show ?thesis
    using sh len by (simp add: binary_matrix_nth set_column_shape set_column_length)
qed

lemma binary_zeros2:
  "0 \<le> n \<Longrightarrow> \<exists>y. zeros2 n k = Inr y \<and> binary_matrix (nat n) k y"
  by (simp add: zeros2_def zeros_def binary_matrix_nth list_all_length)

lemma zeros2_negative: "n < 0 \<Longrightarrow> zeros2 n k = Inl ValueError"
  by (simp add: zeros2_def)

lemma encode_row_binary:
  assumes "encode_row voc y r = Inr y'" and "binary_matrix n k y"
  shows "binary_matrix n k y'"
proof (cases "event_label r = NaN")
  case True
  with assms show ?thesis by (simp add: encode_row_def)
next
  case False
  from assms(1) False obtain i on off where "y' = set_slice y on off i"
    by (auto simp: encode_row_def split: sum.splits)
  with assms(2) show ?thesis by (simp add: binary_set_slice)
qed

lemma encode_rows_binary:
  "encode_rows voc y rs = Inr y' \<Longrightarrow> binary_matrix n k y \<Longrightarrow> binary_matrix n k y'"
proof (induction rs arbitrary: y)
  case Nil
  then show ?case by simp
next
  case (Cons r rs)
  from Cons.prems(1) obtain y1 where y1: "encode_row voc y r = Inr y1"
    and rest: "encode_rows voc y1 rs = Inr y'"
    by (cases "encode_row voc y r") simp_all
  from encode_row_binary [OF y1 Cons.prems(2)] have "binary_matrix n k y1" .
  from Cons.IH [OF rest this] show ?case .
qed

lemma encode_elem_binary:
  assumes "encode_elem voc y x = Inr y'" and "binary_matrix n k y"
  shows "binary_matrix n k y'"
proof (cases x)
  case (EStr s)
  show ?thesis
  proof (cases "s = []")
    case True
    with assms EStr show ?thesis by simp
  next
    case False
    with assms(1) EStr obtain i where "y' = set_column y i"
      by (cases "list_index voc s") auto
    with assms(2) show ?thesis by (simp add: binary_set_column)
  qed
next
  case (ESeq t l xs)
  show ?thesis
  proof (cases "l = Label []")
    case True
    with assms ESeq show ?thesis by (simp split: if_splits)
  next
    case False
    with assms(1) ESeq obtain i on off where "y' = set_slice y on off i"
      by (auto split: if_splits sum.splits)
    with assms(2) show ?thesis by (simp add: binary_set_slice)
  qed
next
  case (ENil t)
  with assms show ?thesis by simp
next
  case (EUnsized t)
  with assms show ?thesis by simp
qed

lemma encode_elems_binary:
  "encode_elems voc y xs = Inr y' \<Longrightarrow> binary_matrix n k y \<Longrightarrow> binary_matrix n k y'"
proof (induction xs arbitrary: y)
  case Nil
  then show ?case by simp
next
  case (Cons x xs)
  from Cons.prems(1) obtain y1 where y1: "encode_elem voc y x = Inr y1"
    and rest: "encode_elems voc y1 xs = Inr y'"
    by (cases "encode_elem voc y x") simp_all
  from encode_elem_binary [OF y1 Cons.prems(2)] have "binary_matrix n k y1" .
  from Cons.IH [OF rest this] show ?case .
qed

lemma encode_strong_df_binary:
  assumes ok: "encode_strong_df enc src = Inr y" and ns: "src \<noteq> SStr ''empty''"
  shows "\<exists>n. n_frames enc = Some (int n) \<and> binary_matrix n (length (labels enc)) y"
proof -
  from ok obtain m where m: "n_frames enc = Some m"
    by (cases "n_frames enc") (simp_all add: encode_strong_df_def)
  have pos: "0 \<le> m"
  proof (rule ccontr)
    assume "\<not> 0 \<le> m"
    then have "zeros2 m (length (labels enc)) = Inl ValueError" by (simp add: zeros2_negative)
    with ok m show False by (simp add: encode_strong_df_def)
  qed
  from binary_zeros2 [OF pos] obtain y0 where y0: "zeros2 m (length (labels enc)) = Inr y0"
    and b0: "binary_matrix (nat m) (length (labels enc)) y0" by blast
  have "binary_matrix (nat m) (length (labels enc)) y"
  proof (cases src)
    case (SStr s)
    with ok ns m y0 show ?thesis by (simp add: encode_strong_df_def)
  next
    case (SDataFrame df)
    show ?thesis
    proof (cases "strong_columns \<subseteq> set (columns df)")
      case True
      with ok m y0 SDataFrame have "encode_rows (labels enc) y0 (rows df) = Inr y"
        by (simp add: encode_strong_df_def)
      from encode_rows_binary [OF this b0] show ?thesis .
    next
      case False
      with ok m y0 SDataFrame have "y = y0" by (simp add: encode_strong_df_def)
      with b0 show ?thesis by simp
    qed
  next
    case (SSeries sr)
    show ?thesis
    proof (cases "strong_columns \<subseteq> set (index sr)")
      case True
      with ok m y0 SSeries have "encode_row (labels enc) y0 (entry sr) = Inr y"
        by (simp add: encode_strong_df_def)
      from encode_row_binary [OF this b0] show ?thesis .
    next
      case False
      with ok m y0 SSeries have "encode_elems (labels enc) y0 (items sr) = Inr y"
        by (simp add: encode_strong_df_def)
      from encode_elems_binary [OF this b0] show ?thesis .
    qed
  next
    case (SList es)
    with ok m y0 have "encode_elems (labels enc) y0 es = Inr y"
      by (simp add: encode_strong_df_def)
    from encode_elems_binary [OF this b0] show ?thesis .
  next
    case (SNdarray es)
    with ok m y0 have "encode_elems (labels enc) y0 es = Inr y"
      by (simp add: encode_strong_df_def)
    from encode_elems_binary [OF this b0] show ?thesis .
  next
    case (SOther t)
    with ok m y0 show ?thesis by (simp add: encode_strong_df_def)
  qed
  with m pos show ?thesis by (intro exI [of _ "nat m"]) simp
qed

lemma is_fin_py_int: "is_fin x \<Longrightarrow> \<exists>i. py_int x = Inr i"
  by (cases x) (simp_all add: is_fin_def)

lemma list_index_map_Label: "list_index (map Label voc) (Label s) = list_index voc s"
  by (induction voc) simp_all

lemma accepted_row_ok:
  assumes "accepted_row voc r"
  shows "\<exists>y'. encode_row voc y r = Inr y'"
proof (cases "event_label r = NaN")
  case True
  then show ?thesis by (simp add: encode_row_def)
next
  case False
  with assms have in_voc: "event_label r \<in> set (map Label voc)"
    and f1: "is_fin (onset r)" and f2: "is_fin (offset r)"
    by (simp_all add: accepted_row_def)
  from list_index_in [OF in_voc] obtain i where "list_index (map Label voc) (event_label r) = Inr i"
    by blast
  moreover from is_fin_py_int [OF f1] obtain a where "py_int (onset r) = Inr a" by blast
  moreover from is_fin_py_int [OF f2] obtain b where "py_int (offset r) = Inr b" by blast
  ultimately show ?thesis using False by (simp add: encode_row_def)
qed

lemma accepted_rows_ok:
  "list_all (accepted_row voc) rs \<Longrightarrow> \<exists>y'. encode_rows voc y rs = Inr y'"
proof (induction rs arbitrary: y)
  case Nil
  then show ?case by simp
next
  case (Cons r rs)
  from Cons.prems have r: "accepted_row voc r" and rs: "list_all (accepted_row voc) rs"
    by simp_all
  from accepted_row_ok [OF r] obtain y1 where "encode_row voc y r = Inr y1" by blast
  then show ?case using Cons.IH [OF rs, of y1] by simp
qed

lemma accepted_elem_ok:
  assumes "accepted_elem voc x"
  shows "\<exists>y'. encode_elem voc y x = Inr y'"
proof (cases x)
  case (EStr s)
  show ?thesis
  proof (cases "s = []")
    case True
    with EStr show ?thesis by simp
  next
    case False
    with assms EStr have "s \<in> set voc" by simp
    from list_index_in [OF this] obtain i where "list_index voc s = Inr i" by blast
    with EStr False show ?thesis by simp
  qed
next
  case (ESeq t l xs)
  with assms have len: "length xs = 2" by simp
  show ?thesis
  proof (cases "l = Label []")
    case True
    with ESeq len show ?thesis by simp
  next
    case False
    with assms ESeq have in_voc: "l \<in> set (map Label voc)" and fin: "list_all is_fin xs"
      by simp_all
    from fin len have f1: "is_fin (xs ! 0)" and f2: "is_fin (xs ! 1)"
      by (simp_all add: list_all_length)
    from list_index_in [OF in_voc] obtain i where "list_index (map Label voc) l = Inr i"
      by blast
    moreover from is_fin_py_int [OF f1] obtain a where "py_int (xs ! 0) = Inr a" by blast
    moreover from is_fin_py_int [OF f2] obtain b where "py_int (xs ! 1) = Inr b" by blast
    ultimately show ?thesis using False ESeq len by simp
  qed
next
  case (ENil t)
  with assms show ?thesis by simp
next
  case (EUnsized t)
  with assms show ?thesis by simp
qed

lemma accepted_elems_ok:
  "list_all (accepted_elem voc) xs \<Longrightarrow> \<exists>y'. encode_elems voc y xs = Inr y'"
proof (induction xs arbitrary: y)
  case Nil
  then show ?case by simp
next
  case (Cons x xs)
  from Cons.prems have x: "accepted_elem voc x" and xs: "list_all (accepted_elem voc) xs"
    by simp_all
  from accepted_elem_ok [OF x] obtain y1 where "encode_elem voc y x = Inr y1" by blast
  then show ?case using Cons.IH [OF xs, of y1] by simp
qed

lemma accepted_ok:
  assumes "accepted enc src"
  shows "\<exists>y. encode_strong_df enc src = Inr y"
proof -
  from assms obtain m where m: "n_frames enc = Some m" and pos: "0 \<le> m"
    by (cases "n_frames enc") (simp_all add: accepted_def)
  from binary_zeros2 [OF pos] obtain y0 where y0: "zeros2 m (length (labels enc)) = Inr y0"
    by blast
  show ?thesis
  proof (cases src)
    case (SStr s)
    with assms show ?thesis by (simp add: accepted_def)
  next
    case (SDataFrame df)
    show ?thesis
    proof (cases "strong_columns \<subseteq> set (columns df)")
      case True
      with assms SDataFrame have "list_all (accepted_row (labels enc)) (rows df)"
        by (simp add: accepted_def)
      from accepted_rows_ok [OF this, of y0] show ?thesis
        using m y0 SDataFrame True by (simp add: encode_strong_df_def)
    next
      case False
      then show ?thesis using m y0 SDataFrame by (simp add: encode_strong_df_def)
    qed
  next
    case (SSeries sr)
    show ?thesis
    proof (cases "strong_columns \<subseteq> set (index sr)")
      case True
      with assms SSeries have "accepted_row (labels enc) (entry sr)"
        by (simp add: accepted_def)
      from accepted_row_ok [OF this, of y0] show ?thesis
        using m y0 SSeries True by (simp add: encode_strong_df_def)
    next
      case False
      with assms SSeries have "list_all (accepted_elem (labels enc)) (items sr)"
        by (simp add: accepted_def)
      from accepted_elems_ok [OF this, of y0] show ?thesis
        using m y0 SSeries False by (simp add: encode_strong_df_def)
    qed
  next
    case (SList es)
    with assms have "list_all (accepted_elem (labels enc)) es" by (simp add: accepted_def)
    from accepted_elems_ok [OF this, of y0] show ?thesis
      using m y0 SList by (simp add: encode_strong_df_def)
  next
    case (SNdarray es)
    with assms have "list_all (accepted_elem (labels enc)) es" by (simp add: accepted_def)
    from accepted_elems_ok [OF this, of y0] show ?thesis
      using m y0 SNdarray by (simp add: encode_strong_df_def)
  next
    case (SOther t)
    with assms show ?thesis by (simp add: accepted_def)
  qed
qed

text \<open>
  C9. Whenever \<^verbatim>\<open>encode_strong_df\<close> returns for an input other than the
  sentinel "empty", the number of frames is set and the array returned has that many
  rows, one column for each vocabulary label, and entries that are all 0 or 1; and it
  does return for every input whose events have labels of the vocabulary and finite
  onsets and offsets.
\<close>

theorem encode_strong_df_shape:
  "(encode_strong_df enc src = Inr y \<and> src \<noteq> SStr ''empty'' \<longrightarrow>
      (\<exists>n. n_frames enc = Some (int n) \<and> binary_matrix n (length (labels enc)) y))
   \<and> (accepted enc src \<longrightarrow> (\<exists>y'. encode_strong_df enc src = Inr y'))"
  using encode_strong_df_binary [of enc src y] accepted_ok [of enc src] by blast

lemma example_encoding:
  "encode_strong_df \<lparr>labels = [''a'', ''b''], n_frames = Some 3\<rparr>
     (SList [ESeq ''list'' (Label ''b'') [Fin 1, Fin 2], EStr ''a''])
   = Inr \<lparr>shape = (3, 2), cells = [[1, 0], [1, 1], [1, 0]]\<rparr>"
  by (simp add: encode_strong_df_def zeros2_def zeros_def set_slice_def set_column_def
      slice_bound_def enumerate_eq_zip upt_rec numeral_3_eq_3)

theorem encode_strong_df_shape_witness:
  "accepted \<lparr>labels = [''a'', ''b''], n_frames = Some 3\<rparr>
     (SList [ESeq ''list'' (Label ''b'') [Fin 1, Fin 2], EStr ''a''])
   \<and> encode_strong_df \<lparr>labels = [''a'', ''b''], n_frames = Some 3\<rparr>
        (SList [ESeq ''list'' (Label ''b'') [Fin 1, Fin 2], EStr ''a''])
      = Inr \<lparr>shape = (3, 2), cells = [[1, 0], [1, 1], [1, 0]]\<rparr>
   \<and> SList [ESeq ''list'' (Label ''b'') [Fin 1, Fin 2], EStr ''a''] \<noteq> SStr ''empty''
   \<and> (\<exists>n. n_frames \<lparr>labels = [''a'', ''b''], n_frames = Some 3\<rparr> = Some (int n)
          \<and> binary_matrix n 2 \<lparr>shape = (3, 2), cells = [[1, 0], [1, 1], [1, 0]]\<rparr>)"
proof -
  have acc: "accepted \<lparr>labels = [''a'', ''b''], n_frames = Some 3\<rparr>
     (SList [ESeq ''list'' (Label ''b'') [Fin 1, Fin 2], EStr ''a''])"
    by (simp add: accepted_def is_fin_def)
  show ?thesis
    using acc example_encoding
      encode_strong_df_shape [of "\<lparr>labels = [''a'', ''b''], n_frames = Some 3\<rparr>"
        "SList [ESeq ''list'' (Label ''b'') [Fin 1, Fin 2], EStr ''a'']"
        "\<lparr>shape = (3, 2), cells = [[1, 0], [1, 1], [1, 0]]\<rparr>"]
    by (simp add: numeral_2_eq_2)
qed

subsection \<open>Frames set by the strong encoding, and unsupported inputs\<close>

lemma slice_bound_lower: "0 \<le> a \<Longrightarrow> f < n \<Longrightarrow> (slice_bound n a \<le> f) = (a \<le> int f)"
  by (auto simp: slice_bound_def)

lemma slice_bound_upper: "0 \<le> b \<Longrightarrow> f < n \<Longrightarrow> (f < slice_bound n b) = (int f < b)"
  by (auto simp: slice_bound_def)

text \<open>
  C3, as stated: an input that is not the sentinel, not a table with the columns onset,
  offset and event\_label, and not a sequence, would raise NotImplementedError. A table
  without those columns is such an input, and it returns the array of zeros.
\<close>

theorem encode_strong_df_table_without_columns_counterexample:
  "encode_strong_df \<lparr>labels = [''a''], n_frames = Some 2\<rparr>
     (SDataFrame \<lparr>columns = [''filename''], rows = []\<rparr>)
   = Inr \<lparr>shape = (2, 1), cells = [[0], [0]]\<rparr>"
  by (simp add: encode_strong_df_def zeros2_def zeros_def strong_columns_def numeral_2_eq_2)

subsection \<open>Decoding, encoding and decoding again\<close>

lemma is_run_iff:
  "is_run c s e =
     (s < e \<and> e \<le> length c \<and> (\<forall>f. s \<le> f \<and> f < e \<longrightarrow> c ! f = 1)
      \<and> (s \<noteq> 0 \<longrightarrow> c ! (s - 1) \<noteq> 1) \<and> (e \<noteq> length c \<longrightarrow> c ! e \<noteq> 1))"
  by (auto simp: is_run_def list_all_iff)

lemma in_concat_map: "x \<in> set xs \<Longrightarrow> y \<in> set (F x) \<Longrightarrow> y \<in> set (concat (map F xs))"
  by auto

lemma find_contiguous_regions_set:
  "((s, e) \<in> set (find_contiguous_regions c)) = is_run c s e"
proof
  assume "(s, e) \<in> set (find_contiguous_regions c)"
  then show "is_run c s e"
    by (auto simp del: upt_Suc simp add: find_contiguous_regions_def)
next
  assume r: "is_run c s e"
  then have "s < e" "e \<le> length c" by (simp_all add: is_run_iff)
  then have a: "s \<in> set [0..<length c]"
    and b: "e \<in> set (filter (is_run c s) [Suc s..<Suc (length c)])"
    using r by (simp_all del: upt_Suc)
  from b have "(s, e) \<in> (\<lambda>e. (s, e)) ` set (filter (is_run c s) [Suc s..<Suc (length c)])"
    by (rule imageI)
  then have m: "(s, e) \<in> set (map (\<lambda>e. (s, e)) (filter (is_run c s) [Suc s..<Suc (length c)]))"
    by (simp only: set_map)
  show "(s, e) \<in> set (find_contiguous_regions c)"
    unfolding find_contiguous_regions_def
    by (rule in_concat_map [where F = "\<lambda>s. map (\<lambda>e. (s, e)) (filter (is_run c s) [Suc s..<Suc (length c)])", OF a m])
qed

lemma runs_of_painted:
  assumes len: "length c = n"
    and paint: "\<And>f. f < n \<Longrightarrow> (c ! f = 1) = (\<exists>s e. (s, e) \<in> R \<and> s \<le> f \<and> f < e)"
    and valid: "\<And>s e. (s, e) \<in> R \<Longrightarrow> s < e \<and> e \<le> n"
    and sep: "\<And>s e s' e'. (s, e) \<in> R \<Longrightarrow> (s', e') \<in> R \<Longrightarrow>
                (s = s' \<and> e = e') \<or> e < s' \<or> e' < s"
  shows "is_run c s e = ((s, e) \<in> R)"
proof
  assume run: "is_run c s e"
  then have se: "s < e" "e \<le> n"
    and ones: "\<And>f. s \<le> f \<Longrightarrow> f < e \<Longrightarrow> c ! f = 1"
    and before: "s \<noteq> 0 \<Longrightarrow> c ! (s - 1) \<noteq> 1"
    and after: "e \<noteq> n \<Longrightarrow> c ! e \<noteq> 1"
    using len by (simp_all add: is_run_iff)
  have "c ! s = 1" using ones [of s] se by simp
  moreover have "s < n" using se by simp
  ultimately obtain s' e' where r: "(s', e') \<in> R" and cover: "s' \<le> s" "s < e'"
    using paint [of s] by blast
  from valid [OF r] have v: "s' < e'" "e' \<le> n" by simp_all
  have s_eq: "s' = s"
  proof (rule ccontr)
    assume "s' \<noteq> s"
    with cover have lt: "s' < s" by simp
    then have "s \<noteq> 0" by simp
    moreover have "c ! (s - 1) = 1"
    proof -
      have "s - 1 < n" using \<open>s < n\<close> by simp
      moreover have "s' \<le> s - 1" "s - 1 < e'" using lt cover by simp_all
      ultimately show ?thesis using paint [of "s - 1"] r by blast
    qed
    ultimately show False using before by simp
  qed
  have e_eq: "e' = e"
  proof (rule ccontr)
    assume ne: "e' \<noteq> e"
    show False
    proof (cases "e' < e")
      case True
      then have "c ! e' = 1" using ones [of e'] cover by simp
      moreover have "e' < n" using True se by simp
      ultimately obtain s2 e2 where r2: "(s2, e2) \<in> R" and c2: "s2 \<le> e'" "e' < e2"
        using paint [of e'] by blast
      from sep [OF r r2] show False using c2 cover s_eq v by auto
    next
      case False
      with ne have gt: "e < e'" by simp
      then have "e \<noteq> n" using v by simp
      moreover have "c ! e = 1"
      proof -
        have "e < n" using gt v by simp
        moreover have "s' \<le> e" using s_eq se by simp
        ultimately show ?thesis using paint [of e] r gt by blast
      qed
      ultimately show False using after by simp
    qed
  qed
  from r s_eq e_eq show "(s, e) \<in> R" by simp
next
  assume r: "(s, e) \<in> R"
  from valid [OF r] have se: "s < e" "e \<le> n" by simp_all
  have ones: "c ! f = 1" if "s \<le> f" "f < e" for f
  proof -
    have "f < n" using that se by simp
    then show ?thesis using paint [of f] r that by blast
  qed
  have before: "c ! (s - 1) \<noteq> 1" if "s \<noteq> 0"
  proof
    assume one: "c ! (s - 1) = 1"
    have "s - 1 < n" using se by simp
    with one obtain s2 e2 where r2: "(s2, e2) \<in> R" and c2: "s2 \<le> s - 1" "s - 1 < e2"
      using paint [of "s - 1"] by blast
    from sep [OF r r2] show False using c2 se that by auto
  qed
  have after: "c ! e \<noteq> 1" if "e \<noteq> n"
  proof
    assume one: "c ! e = 1"
    have "e < n" using se that by simp
    with one obtain s2 e2 where r2: "(s2, e2) \<in> R" and c2: "s2 \<le> e" "e < e2"
      using paint [of e] by blast
    from sep [OF r r2] show False using c2 se by auto
  qed
  show "is_run c s e"
    using se ones before after len by (simp add: is_run_iff)
qed

lemma column_length: "length (column y j) = length (cells y)"
  by (simp add: column_def)

lemma column_nth: "f < length (cells y) \<Longrightarrow> column y j ! f = cells y ! f ! j"
  by (simp add: column_def)

lemma decode_columns_ok:
  "\<forall>j\<in>set js. j < length voc \<Longrightarrow>
   decode_columns voc y js
     = Inr (concat (map (\<lambda>j. map (\<lambda>(s, e). (voc ! j, s, e))
                                  (find_contiguous_regions (column y j))) js))"
  by (induction js) (simp_all add: Let_def)

lemma in_concat_map_iff: "(y \<in> set (concat (map F xs))) = (\<exists>x\<in>set xs. y \<in> set (F x))"
  by auto

lemma decode_strong_set:
  assumes "snd (shape y) = length (labels enc)"
  shows "\<exists>evs. decode_strong enc y = Inr evs
           \<and> (\<forall>l s e. ((l, s, e) \<in> set evs)
                 = (\<exists>j<length (labels enc). l = labels enc ! j \<and> is_run (column y j) s e))"
proof -
  let ?F = "\<lambda>j. map (\<lambda>(s, e). (labels enc ! j, s, e)) (find_contiguous_regions (column y j))"
  let ?evs = "concat (map ?F [0..<length (labels enc)])"
  have "\<forall>j\<in>set [0..<snd (shape y)]. j < length (labels enc)" using assms by simp
  from decode_columns_ok [OF this, of y] have d: "decode_strong enc y = Inr ?evs"
    using assms by (simp add: decode_strong_def)
  have inF: "((l, s, e) \<in> set (?F j)) = (l = labels enc ! j \<and> is_run (column y j) s e)"
    for l s e j
    using find_contiguous_regions_set [of s e "column y j"] by auto
  have "((l, s, e) \<in> set ?evs)
      = (\<exists>j<length (labels enc). l = labels enc ! j \<and> is_run (column y j) s e)" for l s e
  proof -
    have "((l, s, e) \<in> set ?evs) = (\<exists>j\<in>set [0..<length (labels enc)]. (l, s, e) \<in> set (?F j))"
      by (rule in_concat_map_iff)
    also have "\<dots> = (\<exists>j<length (labels enc). l = labels enc ! j \<and> is_run (column y j) s e)"
      unfolding inF by auto
    finally show ?thesis .
  qed
  with d show ?thesis by blast
qed

lemma apart_sym: "apart a b = apart b a"
  by (auto simp: apart_def)

lemma separated_set:
  "separated evs \<Longrightarrow> a \<in> set evs \<Longrightarrow> b \<in> set evs \<Longrightarrow> fst a = fst b \<Longrightarrow> a = b \<or> apart a b"
proof (induction evs)
  case Nil
  then show ?case by simp
next
  case (Cons x evs)
  from Cons.prems(1) have hd: "\<And>c. c \<in> set evs \<Longrightarrow> fst c = fst x \<Longrightarrow> apart x c"
    and tl: "separated evs"
    by (simp_all add: list_all_iff)
  show ?case
  proof (cases "a = x")
    case ax: True
    show ?thesis
    proof (cases "b = x")
      case True
      with ax show ?thesis by simp
    next
      case False
      with Cons.prems(3) have "b \<in> set evs" by simp
      from hd [OF this] Cons.prems(4) ax show ?thesis by simp
    qed
  next
    case False
    with Cons.prems(2) have a: "a \<in> set evs" by simp
    show ?thesis
    proof (cases "b = x")
      case True
      from hd [OF a] Cons.prems(4) True have "apart x a" by simp
      with True show ?thesis by (simp add: apart_sym)
    next
      case False
      with Cons.prems(3) have "b \<in> set evs" by simp
      from Cons.IH [OF tl a this Cons.prems(4)] show ?thesis .
    qed
  qed
qed

lemma encode_elem_event:
  assumes "list_index voc l = Inr i" and "l \<noteq> []"
  shows "encode_elem voc y (event_elem (l, s, e)) = Inr (set_slice y (int s) (int e) i)"
  using assms by (simp add: event_elem_def list_index_map_Label)

lemma set_slice_entry:
  assumes bm: "binary_matrix n k y" and i: "i < k" and f: "f < n" and j: "j < k"
  shows "(cells (set_slice y (int s) (int e) i) ! f ! j = 1)
       = (cells y ! f ! j = 1 \<or> (j = i \<and> s \<le> f \<and> f < e))"
proof -
  from bm have sh: "fst (shape y) = n" and len: "length (cells y) = n"
    and row: "length (cells y ! f) = k"
    using f by (simp_all add: binary_matrix_nth)
  have lo: "(slice_bound n (int s) \<le> f) = (s \<le> f)"
    using slice_bound_lower [of "int s" f n] f by simp
  have hi: "(f < slice_bound n (int e)) = (f < e)"
    using slice_bound_upper [of "int e" f n] f by simp
  show ?thesis
  proof (cases "j = i")
    case True
    then show ?thesis using f len sh row i lo hi by (auto simp: set_slice_nth)
  next
    case False
    then show ?thesis using f len sh row i lo hi by (auto simp: set_slice_nth)
  qed
qed

lemma encode_events:
  assumes "binary_matrix n k y" and "k = length voc"
    and "\<forall>ev\<in>set evs. fst ev \<in> set voc \<and> fst ev \<noteq> []"
  shows "\<exists>y'. encode_elems voc y (map event_elem evs) = Inr y' \<and> binary_matrix n k y'
           \<and> (\<forall>f<n. \<forall>j<k. (cells y' ! f ! j = 1)
                 = (cells y ! f ! j = 1
                    \<or> (\<exists>l s e. (l, s, e) \<in> set evs \<and> list_index voc l = Inr j
                                \<and> s \<le> f \<and> f < e)))"
  using assms
proof (induction evs arbitrary: y)
  case Nil
  then show ?case by simp
next
  case (Cons ev evs)
  obtain l s e where ev: "ev = (l, s, e)" by (cases ev)
  from Cons.prems(3) ev have l: "l \<in> set voc" "l \<noteq> []" by simp_all
  from list_index_in [OF l(1)] obtain i where i: "i < length voc" "list_index voc l = Inr i"
    by blast
  let ?y1 = "set_slice y (int s) (int e) i"
  have step: "encode_elem voc y (event_elem ev) = Inr ?y1"
    unfolding ev by (rule encode_elem_event [OF i(2) l(2)])
  have b1: "binary_matrix n k ?y1" using Cons.prems(1) by (rule binary_set_slice)
  have rest: "\<forall>ev\<in>set evs. fst ev \<in> set voc \<and> fst ev \<noteq> []" using Cons.prems(3) by simp
  from Cons.IH [OF b1 Cons.prems(2) rest] obtain y' where
    r: "encode_elems voc ?y1 (map event_elem evs) = Inr y'" and b': "binary_matrix n k y'"
    and ent: "\<And>f j. f < n \<Longrightarrow> j < k \<Longrightarrow> (cells y' ! f ! j = 1)
                 = (cells ?y1 ! f ! j = 1
                    \<or> (\<exists>l s e. (l, s, e) \<in> set evs \<and> list_index voc l = Inr j
                                \<and> s \<le> f \<and> f < e))"
    by blast
  have whole: "encode_elems voc y (map event_elem (ev # evs)) = Inr y'"
    using step r by simp
  have "(cells y' ! f ! j = 1)
          = (cells y ! f ! j = 1
             \<or> (\<exists>l s e. (l, s, e) \<in> set (ev # evs) \<and> list_index voc l = Inr j
                         \<and> s \<le> f \<and> f < e))"
    if f: "f < n" and j: "j < k" for f j
  proof -
    have ik: "i < k" using i(1) Cons.prems(2) by simp
    have one: "(cells ?y1 ! f ! j = 1) = (cells y ! f ! j = 1 \<or> (j = i \<and> s \<le> f \<and> f < e))"
      by (rule set_slice_entry [OF Cons.prems(1) ik f j])
    have here: "(j = i \<and> s \<le> f \<and> f < e)
        = (\<exists>l' s' e'. (l', s', e') = ev \<and> list_index voc l' = Inr j \<and> s' \<le> f \<and> f < e')"
      using ev i(2) by auto
    show ?thesis
      unfolding ent [OF f j] one here by auto
  qed
  with whole b' show ?case by blast
qed

lemma zeros2_entries:
  "\<exists>y. zeros2 (int n) k = Inr y \<and> binary_matrix n k y \<and> (\<forall>f<n. \<forall>j<k. cells y ! f ! j = 0)"
  by (simp add: zeros2_def zeros_def binary_matrix_nth list_all_length)

text \<open>
  C4, amended: for an array of 0 and 1 with as many rows as the encoder has frames and
  one column for each vocabulary label, \<^verbatim>\<open>decode_strong\<close> returns a list of event
  tuples; when no two tuples of the same label overlap or touch, and no tuple has the
  empty string as its label, encoding that list and decoding the result gives the same
  set of event tuples.
\<close>

theorem decode_encode_decode_roundtrip:
  assumes nf: "n_frames enc = Some (int n)"
    and bm: "binary_matrix n (length (labels enc)) M"
  shows "\<exists>evs. decode_strong enc M = Inr evs
           \<and> (separated evs \<and> list_all (\<lambda>ev. fst ev \<noteq> []) evs \<longrightarrow>
                (\<exists>evs'. decode_encode_decode enc M = Inr evs' \<and> set evs' = set evs))"
proof -
  let ?voc = "labels enc"
  let ?k = "length ?voc"
  from bm have shM: "snd (shape M) = ?k" and lenM: "length (cells M) = n"
    by (simp_all add: binary_matrix_nth)
  from decode_strong_set [OF shM] obtain evs where dec: "decode_strong enc M = Inr evs"
    and mem: "\<And>l s e. ((l, s, e) \<in> set evs)
                = (\<exists>j<?k. l = ?voc ! j \<and> is_run (column M j) s e)"
    by blast
  have "\<exists>evs'. decode_encode_decode enc M = Inr evs' \<and> set evs' = set evs"
    if sep: "separated evs" and ne: "list_all (\<lambda>ev. fst ev \<noteq> []) evs"
  proof -
    have in_voc: "l \<in> set ?voc" if "(l, s, e) \<in> set evs" for l s e
      using that mem [of l s e] by auto
    have valid: "s < e \<and> e \<le> n" if "(l, s, e) \<in> set evs" for l s e
    proof -
      from that mem [of l s e] obtain j where "is_run (column M j) s e" by blast
      then show ?thesis by (simp add: is_run_iff column_length lenM)
    qed
    have inv: "\<forall>ev\<in>set evs. fst ev \<in> set ?voc \<and> fst ev \<noteq> []"
    proof
      fix ev assume ev: "ev \<in> set evs"
      obtain l s e where "ev = (l, s, e)" by (cases ev)
      with ev in_voc [of l s e] ne show "fst ev \<in> set ?voc \<and> fst ev \<noteq> []"
        by (auto simp: list_all_iff)
    qed
    from zeros2_entries [of n ?k] obtain y0 where z: "zeros2 (int n) ?k = Inr y0"
      and b0: "binary_matrix n ?k y0" and zero: "\<And>f j. f < n \<Longrightarrow> j < ?k \<Longrightarrow> cells y0 ! f ! j = 0"
      by blast
    from encode_events [OF b0 refl inv] obtain y1 where
      e1: "encode_elems ?voc y0 (map event_elem evs) = Inr y1"
      and b1: "binary_matrix n ?k y1"
      and ent0: "\<And>f j. f < n \<Longrightarrow> j < ?k \<Longrightarrow> (cells y1 ! f ! j = 1)
                 = (cells y0 ! f ! j = 1
                    \<or> (\<exists>l s e. (l, s, e) \<in> set evs \<and> list_index ?voc l = Inr j
                                \<and> s \<le> f \<and> f < e))"
      by blast
    have ent: "(cells y1 ! f ! j = 1)
                 = (\<exists>l s e. (l, s, e) \<in> set evs \<and> list_index ?voc l = Inr j \<and> s \<le> f \<and> f < e)"
      if "f < n" "j < ?k" for f j
      using ent0 [OF that] zero [OF that] by simp
    have enc1: "encode_strong_df enc (SList (map event_elem evs)) = Inr y1"
      using nf z e1 by (simp add: encode_strong_df_def)
    from b1 have sh1: "snd (shape y1) = ?k" and len1: "length (cells y1) = n"
      by (simp_all add: binary_matrix_nth)
    from decode_strong_set [OF sh1] obtain evs' where dec': "decode_strong enc y1 = Inr evs'"
      and mem': "\<And>l s e. ((l, s, e) \<in> set evs')
                = (\<exists>j<?k. l = ?voc ! j \<and> is_run (column y1 j) s e)"
      by blast
    have run1: "is_run (column y1 j) s e
                  = ((s, e) \<in> {(s, e). \<exists>l. (l, s, e) \<in> set evs \<and> list_index ?voc l = Inr j})"
      if j: "j < ?k" for j s e
    proof (rule runs_of_painted [where n = n])
      show "length (column y1 j) = n" by (simp add: column_length len1)
    next
      fix f assume f: "f < n"
      show "(column y1 j ! f = 1)
          = (\<exists>s e. (s, e) \<in> {(s, e). \<exists>l. (l, s, e) \<in> set evs \<and> list_index ?voc l = Inr j}
                    \<and> s \<le> f \<and> f < e)"
        using f ent [OF f j] by (auto simp: column_nth len1)
    next
      fix s e assume "(s, e) \<in> {(s, e). \<exists>l. (l, s, e) \<in> set evs \<and> list_index ?voc l = Inr j}"
      then obtain l where "(l, s, e) \<in> set evs" by blast
      from valid [OF this] show "s < e \<and> e \<le> n" .
    next
      fix s e s' e'
      assume "(s, e) \<in> {(s, e). \<exists>l. (l, s, e) \<in> set evs \<and> list_index ?voc l = Inr j}"
        and "(s', e') \<in> {(s, e). \<exists>l. (l, s, e) \<in> set evs \<and> list_index ?voc l = Inr j}"
      then obtain l l' where a: "(l, s, e) \<in> set evs" "list_index ?voc l = Inr j"
        and b: "(l', s', e') \<in> set evs" "list_index ?voc l' = Inr j"
        by blast
      from list_index_Inr [OF a(2)] list_index_Inr [OF b(2)] have "l = l'" by simp
      then have "fst (l, s, e) = fst (l', s', e')" by simp
      from separated_set [OF sep a(1) b(1) this]
      show "(s = s' \<and> e = e') \<or> e < s' \<or> e' < s"
        by (auto simp: apart_def)
    qed
    have "((l, s, e) \<in> set evs') = ((l, s, e) \<in> set evs)" for l s e
    proof
      assume "(l, s, e) \<in> set evs'"
      with mem' [of l s e] obtain j where j: "j < ?k" "l = ?voc ! j" "is_run (column y1 j) s e"
        by blast
      from j(3) run1 [OF j(1), of s e] obtain l' where l': "(l', s, e) \<in> set evs"
        "list_index ?voc l' = Inr j" by blast
      from list_index_Inr [OF l'(2)] j(2) have "l' = l" by simp
      with l'(1) show "(l, s, e) \<in> set evs" by simp
    next
      assume in_evs: "(l, s, e) \<in> set evs"
      from list_index_in [OF in_voc [OF this]] obtain j where j: "j < ?k"
        "list_index ?voc l = Inr j" "?voc ! j = l" by blast
      from in_evs j(2) have "is_run (column y1 j) s e"
        using run1 [OF j(1), of s e] by blast
      with j mem' [of l s e] show "(l, s, e) \<in> set evs'" by blast
    qed
    then have "set evs' = set evs" by auto
    moreover have "decode_encode_decode enc M = Inr evs'"
      using dec enc1 dec' by (simp add: decode_encode_decode_def)
    ultimately show ?thesis by blast
  qed
  with dec show ?thesis by blast
qed

lemma regions_101: "find_contiguous_regions [1, 0, 1] = [(0, 1), (2, 3)]"
  by (simp add: find_contiguous_regions_def is_run_def upt_rec numeral_3_eq_3 numeral_2_eq_2)

lemma regions_011: "find_contiguous_regions [0, 1, 1] = [(1, 3)]"
  by (simp add: find_contiguous_regions_def is_run_def upt_rec numeral_3_eq_3 numeral_2_eq_2)

lemma regions_10: "find_contiguous_regions [1, 0] = [(0, 1)]"
  by (simp add: find_contiguous_regions_def is_run_def upt_rec numeral_2_eq_2)

lemma regions_11: "find_contiguous_regions [1, 1] = [(0, 2)]"
  by (simp add: find_contiguous_regions_def is_run_def upt_rec numeral_2_eq_2)

lemma regions_00: "find_contiguous_regions [0, 0] = []"
  by (simp add: find_contiguous_regions_def is_run_def upt_rec numeral_2_eq_2)

text \<open>
  C4, as stated: the round trip would give back the set of event tuples of every array
  of 0 and 1 whose runs of one label neither overlap nor touch. With the vocabulary
  "Speech", "" the event of the label "" is passed over by the encoder (the test
  \<^verbatim>\<open>event_label[0] is not ""\<close>), and the second decoding has lost it.
\<close>

theorem roundtrip_empty_label_counterexample:
  "binary_matrix 2 2 \<lparr>shape = (2, 2), cells = [[1, 1], [0, 1]]\<rparr>
   \<and> decode_strong \<lparr>labels = [''Speech'', ''''], n_frames = Some 2\<rparr>
        \<lparr>shape = (2, 2), cells = [[1, 1], [0, 1]]\<rparr>
       = Inr [(''Speech'', 0, 1), ('''', 0, 2)]
   \<and> separated [(''Speech'', 0, 1), ('''', 0, 2)]
   \<and> encode_strong_df \<lparr>labels = [''Speech'', ''''], n_frames = Some 2\<rparr>
        (SList (map event_elem [(''Speech'', 0, 1), ('''', 0, 2)]))
       = Inr \<lparr>shape = (2, 2), cells = [[1, 0], [0, 0]]\<rparr>
   \<and> decode_encode_decode \<lparr>labels = [''Speech'', ''''], n_frames = Some 2\<rparr>
        \<lparr>shape = (2, 2), cells = [[1, 1], [0, 1]]\<rparr>
       = Inr [(''Speech'', 0, 1)]
   \<and> set [(''Speech'', 0::nat, 1::nat)] \<noteq> set [(''Speech'', 0, 1), ('''', 0, 2)]"
proof -
  have d: "decode_strong \<lparr>labels = [''Speech'', ''''], n_frames = Some 2\<rparr>
        \<lparr>shape = (2, 2), cells = [[1, 1], [0, 1]]\<rparr>
       = Inr [(''Speech'', 0, 1), ('''', 0, 2)]"
    by (simp add: decode_strong_def column_def upt_rec numeral_2_eq_2 regions_10 regions_11
        del: upt_Suc)
  have e: "encode_strong_df \<lparr>labels = [''Speech'', ''''], n_frames = Some 2\<rparr>
        (SList (map event_elem [(''Speech'', 0, 1), ('''', 0, 2)]))
       = Inr \<lparr>shape = (2, 2), cells = [[1, 0], [0, 0]]\<rparr>"
    by (simp add: encode_strong_df_def event_elem_def zeros2_def zeros_def set_slice_def
        slice_bound_def enumerate_eq_zip upt_rec numeral_2_eq_2)
  have d2: "decode_strong \<lparr>labels = [''Speech'', ''''], n_frames = Some 2\<rparr>
        \<lparr>shape = (2, 2), cells = [[1, 0], [0, 0]]\<rparr>
       = Inr [(''Speech'', 0, 1)]"
    by (simp add: decode_strong_def column_def upt_rec numeral_2_eq_2 regions_10 regions_00
        del: upt_Suc)
  have b: "binary_matrix 2 2 \<lparr>shape = (2, 2), cells = [[1, 1], [0, 1]]\<rparr>"
    by (simp add: binary_matrix_def)
  have s: "separated [(''Speech'', 0, 1), ('''', 0, 2)]" by simp
  have ded: "decode_encode_decode \<lparr>labels = [''Speech'', ''''], n_frames = Some 2\<rparr>
        \<lparr>shape = (2, 2), cells = [[1, 1], [0, 1]]\<rparr>
       = Inr [(''Speech'', 0, 1)]"
    unfolding decode_encode_decode_def d using e d2 by simp
  have ne: "set [(''Speech'', 0::nat, 1::nat)] \<noteq> set [(''Speech'', 0, 1), ('''', 0, 2)]"
    by simp
  from b d s e ded ne show ?thesis by (intro conjI)
qed

theorem decode_encode_decode_roundtrip_witness:
  "n_frames \<lparr>labels = [''a'', ''b''], n_frames = Some 3\<rparr> = Some (int 3)
   \<and> binary_matrix 3 (length (labels \<lparr>labels = [''a'', ''b''], n_frames = Some 3\<rparr>))
        \<lparr>shape = (3, 2), cells = [[1, 0], [0, 1], [1, 1]]\<rparr>
   \<and> decode_strong \<lparr>labels = [''a'', ''b''], n_frames = Some 3\<rparr>
        \<lparr>shape = (3, 2), cells = [[1, 0], [0, 1], [1, 1]]\<rparr>
       = Inr [(''a'', 0, 1), (''a'', 2, 3), (''b'', 1, 3)]
   \<and> separated [(''a'', 0, 1), (''a'', 2, 3), (''b'', 1, 3)]
   \<and> list_all (\<lambda>ev. fst ev \<noteq> []) [(''a'', 0::nat, 1::nat), (''a'', 2, 3), (''b'', 1, 3)]
   \<and> (\<exists>evs'. decode_encode_decode \<lparr>labels = [''a'', ''b''], n_frames = Some 3\<rparr>
                 \<lparr>shape = (3, 2), cells = [[1, 0], [0, 1], [1, 1]]\<rparr> = Inr evs'
              \<and> set evs' = set [(''a'', 0, 1), (''a'', 2, 3), (''b'', 1, 3)])"
proof -
  let ?enc = "\<lparr>labels = [''a'', ''b''], n_frames = Some 3\<rparr>"
  let ?M = "\<lparr>shape = (3, 2), cells = [[1, 0], [0, 1], [1, 1]]\<rparr>"
  let ?E = "[(''a'', 0::nat, 1::nat), (''a'', 2, 3), (''b'', 1, 3)]"
  have nf: "n_frames ?enc = Some (int 3)" by simp
  have bm: "binary_matrix 3 (length (labels ?enc)) ?M" by (simp add: binary_matrix_def)
  have d: "decode_strong ?enc ?M = Inr ?E"
    by (simp add: decode_strong_def column_def upt_rec numeral_2_eq_2 regions_101 regions_011
        del: upt_Suc)
  have s: "separated ?E" by (simp add: apart_def)
  have ne: "list_all (\<lambda>ev. fst ev \<noteq> []) ?E" by simp
  from decode_encode_decode_roundtrip [OF nf bm] d s ne
  have "\<exists>evs'. decode_encode_decode ?enc ?M = Inr evs' \<and> set evs' = set ?E"
    by auto
  with nf bm d s ne show ?thesis by (intro conjI)
qed

subsection \<open>Entries set by the strong encoding\<close>













subsection \<open>Unsupported inputs of the strong encoding\<close>

lemma encode_elem_unsupported_type:
  "unsupported_type x = Some t \<Longrightarrow> encode_elem voc y x = Inl (NotImplementedError t)"
  by (cases x) (simp_all split: if_splits)

lemma encode_elem_unsupported: "unsupported x \<Longrightarrow> \<exists>e. encode_elem voc y x = Inl e"
  by (cases x) simp_all

lemma encode_elems_append:
  "list_all (accepted_elem voc) pre \<Longrightarrow>
   \<exists>y1. encode_elems voc y (pre @ rest) = encode_elems voc y1 rest"
proof (induction pre arbitrary: y)
  case Nil
  then show ?case by auto
next
  case (Cons x pre)
  from Cons.prems have x: "accepted_elem voc x" and pre: "list_all (accepted_elem voc) pre"
    by simp_all
  from accepted_elem_ok [OF x] obtain y1 where "encode_elem voc y x = Inr y1" by blast
  then have "encode_elems voc y ((x # pre) @ rest) = encode_elems voc y1 (pre @ rest)" by simp
  with Cons.IH [OF pre, of y1] show ?case by simp
qed

lemma encode_elems_no_matrix:
  "list_ex unsupported xs \<Longrightarrow> encode_elems voc y xs \<noteq> Inr y'"
proof (induction xs arbitrary: y)
  case Nil
  then show ?case by simp
next
  case (Cons x xs)
  show ?case
  proof (cases "encode_elem voc y x")
    case (Inl e)
    then show ?thesis by simp
  next
    case (Inr y1)
    with encode_elem_unsupported [of x voc y] have "\<not> unsupported x" by auto
    with Cons.prems have "list_ex unsupported xs" by simp
    from Cons.IH [OF this, of y1] Inr show ?thesis by simp
  qed
qed

lemma items_of_encode:
  assumes "items_of src = Some es" and "n_frames enc = Some n"
    and "zeros2 n (length (labels enc)) = Inr y0"
  shows "encode_strong_df enc src = encode_elems (labels enc) y0 es"
  using assms
  by (cases src) (auto simp: items_of_def encode_strong_df_def split: if_splits)

lemma items_no_matrix:
  assumes "items_of src = Some es" and "list_ex unsupported es"
  shows "encode_strong_df enc src \<noteq> Inr y"
proof (cases "n_frames enc")
  case None
  then show ?thesis by (simp add: encode_strong_df_def)
next
  case (Some n)
  show ?thesis
  proof (cases "zeros2 n (length (labels enc))")
    case (Inl e)
    with Some show ?thesis by (simp add: encode_strong_df_def)
  next
    case (Inr y0)
    from items_of_encode [OF assms(1) Some Inr] encode_elems_no_matrix [OF assms(2)]
    show ?thesis by simp
  qed
qed

lemma other_no_matrix:
  "(s \<noteq> ''empty'' \<longrightarrow> encode_strong_df enc (SStr s) \<noteq> Inr y)
   \<and> encode_strong_df enc (SOther t) \<noteq> Inr y"
  by (simp add: encode_strong_df_def split: option.splits sum.splits)

text \<open>
  C3, amended: with the number of frames set and not negative, a string other than
  "empty" and an object of any type other than table, series, list and array raise
  NotImplementedError naming the type of the input; and a list, an array or a series
  (not one row) whose items are encodable up to an item that has a length other than 3
  and is not a string raises NotImplementedError naming the type of that item. Whatever
  the number of frames, none of these inputs returns an array, and neither does a list,
  an array or a series with an item anywhere that is neither a string nor of length 3.
\<close>

theorem encode_strong_df_unsupported:
  "(n_frames enc = Some n \<and> 0 \<le> n \<longrightarrow>
      (s \<noteq> ''empty'' \<longrightarrow> encode_strong_df enc (SStr s) = Inl (NotImplementedError ''str''))
      \<and> encode_strong_df enc (SOther t) = Inl (NotImplementedError t)
      \<and> (items_of src = Some (pre @ x # post) \<and> list_all (accepted_elem (labels enc)) pre
           \<and> unsupported_type x = Some u \<longrightarrow>
         encode_strong_df enc src = Inl (NotImplementedError u)))
   \<and> (s \<noteq> ''empty'' \<longrightarrow> (\<forall>y. encode_strong_df enc (SStr s) \<noteq> Inr y))
   \<and> (\<forall>y. encode_strong_df enc (SOther t) \<noteq> Inr y)
   \<and> (items_of src' = Some es \<and> list_ex unsupported es \<longrightarrow>
        (\<forall>y. encode_strong_df enc src' \<noteq> Inr y))"
proof (intro conjI impI allI)
  assume "n_frames enc = Some n \<and> 0 \<le> n" and "s \<noteq> ''empty''"
  then show "encode_strong_df enc (SStr s) = Inl (NotImplementedError ''str'')"
    by (simp add: encode_strong_df_def zeros2_def)
next
  assume "n_frames enc = Some n \<and> 0 \<le> n"
  then show "encode_strong_df enc (SOther t) = Inl (NotImplementedError t)"
    by (simp add: encode_strong_df_def zeros2_def)
next
  assume nf: "n_frames enc = Some n \<and> 0 \<le> n"
    and it: "items_of src = Some (pre @ x # post) \<and> list_all (accepted_elem (labels enc)) pre
           \<and> unsupported_type x = Some u"
  from nf binary_zeros2 [of n "length (labels enc)"] obtain y0 where
    z: "zeros2 n (length (labels enc)) = Inr y0" by blast
  from it encode_elems_append [of "labels enc" pre y0 "x # post"] obtain y1 where
    "encode_elems (labels enc) y0 (pre @ x # post) = encode_elems (labels enc) y1 (x # post)"
    by blast
  moreover from it have "encode_elem (labels enc) y1 x = Inl (NotImplementedError u)"
    by (simp add: encode_elem_unsupported_type)
  ultimately have "encode_elems (labels enc) y0 (pre @ x # post) = Inl (NotImplementedError u)"
    by simp
  with items_of_encode [of src "pre @ x # post" enc n y0] it nf z
  show "encode_strong_df enc src = Inl (NotImplementedError u)" by simp
next
  fix y assume "s \<noteq> ''empty''"
  then show "encode_strong_df enc (SStr s) \<noteq> Inr y" using other_no_matrix [of s enc y] by simp
next
  fix y show "encode_strong_df enc (SOther t) \<noteq> Inr y" using other_no_matrix [of s enc y t] by simp
next
  fix y assume "items_of src' = Some es \<and> list_ex unsupported es"
  then show "encode_strong_df enc src' \<noteq> Inr y" using items_no_matrix [of src' es enc y] by simp
qed

theorem encode_strong_df_unsupported_witness:
  "n_frames \<lparr>labels = [''a''], n_frames = Some 2\<rparr> = Some 2 \<and> (0::int) \<le> 2
   \<and> ''a'' \<noteq> ''empty''
   \<and> encode_strong_df \<lparr>labels = [''a''], n_frames = Some 2\<rparr> (SStr ''a'')
       = Inl (NotImplementedError ''str'')
   \<and> encode_strong_df \<lparr>labels = [''a''], n_frames = Some 2\<rparr> (SOther ''dict'')
       = Inl (NotImplementedError ''dict'')
   \<and> items_of (SNdarray [EStr ''a'', ESeq ''tuple'' (Label ''a'') [Fin 0], EStr ''a''])
       = Some ([EStr ''a''] @ ESeq ''tuple'' (Label ''a'') [Fin 0] # [EStr ''a''])
   \<and> list_all (accepted_elem (labels \<lparr>labels = [''a''], n_frames = Some 2\<rparr>)) [EStr ''a'']
   \<and> unsupported_type (ESeq ''tuple'' (Label ''a'') [Fin 0]) = Some ''tuple''
   \<and> encode_strong_df \<lparr>labels = [''a''], n_frames = Some 2\<rparr>
        (SNdarray [EStr ''a'', ESeq ''tuple'' (Label ''a'') [Fin 0], EStr ''a''])
       = Inl (NotImplementedError ''tuple'')
   \<and> items_of (SList [EStr ''a'', EUnsized ''float'']) = Some [EStr ''a'', EUnsized ''float'']
   \<and> list_ex unsupported [EStr ''a'', EUnsized ''float'']
   \<and> (\<forall>y. encode_strong_df \<lparr>labels = [''a''], n_frames = Some 2\<rparr>
              (SList [EStr ''a'', EUnsized ''float'']) \<noteq> Inr y)"
  using encode_strong_df_unsupported
    [of "\<lparr>labels = [''a''], n_frames = Some 2\<rparr>" 2 "''a''" "''dict''"
        "SNdarray [EStr ''a'', ESeq ''tuple'' (Label ''a'') [Fin 0], EStr ''a'']"
        "[EStr ''a'']" "ESeq ''tuple'' (Label ''a'') [Fin 0]" "[EStr ''a'']" "''tuple''"
        "SList [EStr ''a'', EUnsized ''float'']" "[EStr ''a'', EUnsized ''float'']"]
  by (simp add: items_of_def)

end
